theory Spec2Isabelle
  imports Complex_Main "HOL-Library.Option_ord" "HOL-Library.Sublist" "HOL-Library.Multiset"
begin

section \<open>The movie collection\<close>

text \<open>
  A field of a stored document is absent, holds null, or holds a value of the type the
  schema of models/Movie.js gives it (String or Number). Numbers are exact rationals:
  rounding, infinities and NaN of the store's doubles are outside this model.
\<close>

datatype 'a field = Absent | Null | Val 'a

record movie =
  Title :: "string field"
  Genres :: "string field"
  ReleaseDate :: "string field"
  ReleaseCountry :: "string field"
  ReviewRating :: "rat field"
  MovieRunTime :: "string field"
  Plot :: "string field"
  Cast :: "string field"
  Language :: "string field"
  FilmingLocations :: "string field"

text \<open>The documents of the two aggregations: \<open>_id\<close> and the accumulators of \<open>$group\<close>.\<close>

record year_group =
  yg_id :: "int field"
  yg_count :: nat

record country_group =
  cg_id :: "string field"
  avgRating :: "rat field"
  movieCount :: nat

text \<open>
  The store holds the collection in its native order. A call either rejects with an error
  text (\<open>failure\<close>) or runs the query on the documents; \<open>calls\<close> counts the calls made.
\<close>

record store =
  docs :: "movie list"
  failure :: "string option"
  calls :: nat

definition run_query :: "store \<Rightarrow> (movie list \<Rightarrow> string + 'a) \<Rightarrow> (string + 'a) \<times> store" where
  "run_query st q =
     ((case failure st of Some e \<Rightarrow> Inl e | None \<Rightarrow> q (docs st)),
      st\<lparr>calls := calls st + 1\<rparr>)"

text \<open>What \<open>res.status(..).json(..)\<close> sends; \<open>res.json(..)\<close> alone sends status 200.\<close>

datatype body =
    Movies "movie list"
  | YearCounts "year_group list"
  | Countries "country_group list"
  | Message string

datatype response = Response (status: nat) (body: body)

section \<open>Query operators of the store\<close>

text \<open>
  The store's comparison order puts null and missing fields below every number;
  \<open>None\<close> is the least element of the order on \<open>option\<close>.
\<close>

definition sort_value :: "'a field \<Rightarrow> 'a option" where
  "sort_value f = (case f of Val x \<Rightarrow> Some x | _ \<Rightarrow> None)"

text \<open>
  \<open>{ $gte: r }\<close> holds for a field that has a number at least \<open>r\<close>; it never holds for
  a null or missing field.
\<close>

definition gte :: "rat \<Rightarrow> rat field \<Rightarrow> bool" where
  "gte r f = (case f of Val x \<Rightarrow> r \<le> x | _ \<Rightarrow> False)"

text \<open>\<open>{ $exists: true, $ne: null }\<close>.\<close>

definition exists_ne_null :: "'a field \<Rightarrow> bool" where
  "exists_ne_null f = (f \<noteq> Absent \<and> (f \<noteq> Null \<and> f \<noteq> Absent))"

text \<open>\<open>{ $regex: p }\<close> holds for a string field in which the pattern matches.\<close>

definition regex :: "(string \<Rightarrow> bool) \<Rightarrow> string field \<Rightarrow> bool" where
  "regex p f = (case f of Val s \<Rightarrow> p s | _ \<Rightarrow> False)"

text \<open>
  Sorting. The order among documents with equal keys is the store's choice; the model
  takes one sorted arrangement, and no theorem below depends on which.
\<close>

definition sort_asc :: "('a \<Rightarrow> 'k::linorder) \<Rightarrow> 'a list \<Rightarrow> 'a list" where
  "sort_asc f xs = sort_key f xs"

definition sort_desc :: "('a \<Rightarrow> 'k::linorder) \<Rightarrow> 'a list \<Rightarrow> 'a list" where
  "sort_desc f xs = rev (sort_key f xs)"

definition limit :: "nat \<Rightarrow> 'a list \<Rightarrow> 'a list" where
  "limit n xs = take n xs"

text \<open>\<open>$group\<close>: one group per distinct key, holding the documents with that key.\<close>

definition group_by :: "('a \<Rightarrow> 'k) \<Rightarrow> 'a list \<Rightarrow> ('k \<times> 'a list) list" where
  "group_by f xs = map (\<lambda>k. (k, filter (\<lambda>x. f x = k) xs)) (remdups (map f xs))"

text \<open>\<open>$avg\<close> over the numeric values of a group; null when there is none.\<close>

definition numbers :: "rat field list \<Rightarrow> rat list" where
  "numbers fs = concat (map (\<lambda>f. case f of Val x \<Rightarrow> [x] | _ \<Rightarrow> []) fs)"

definition avg :: "rat field list \<Rightarrow> rat field" where
  "avg fs = (if numbers fs = [] then Null
             else Val (sum_list (numbers fs) / of_nat (length (numbers fs))))"

subsection \<open>Expression operators of the year pipeline\<close>

fun split_on :: "char \<Rightarrow> string \<Rightarrow> string list" where
  "split_on d [] = [[]]"
| "split_on d (c # cs) =
     (if c = d then [] # split_on d cs
      else (case split_on d cs of p # ps \<Rightarrow> (c # p) # ps | [] \<Rightarrow> [[c]]))"

definition split_op :: "string field \<Rightarrow> char \<Rightarrow> string list field" where
  "split_op v d = (case v of Val s \<Rightarrow> Val (split_on d s) | _ \<Rightarrow> Null)"

definition arrayElemAt :: "'a list field \<Rightarrow> nat \<Rightarrow> 'a field" where
  "arrayElemAt v i =
     (case v of Val xs \<Rightarrow> (if i < length xs then Val (xs ! i) else Absent) | _ \<Rightarrow> Null)"

definition is_digit :: "char \<Rightarrow> bool" where
  "is_digit c = (c \<in> set ''0123456789'')"

definition is_alpha :: "char \<Rightarrow> bool" where
  "is_alpha c = (c \<in> set ''ABCDEFGHIJKLMNOPQRSTUVWXYZabcdefghijklmnopqrstuvwxyz'')"

definition digit_value :: "char \<Rightarrow> int" where
  "digit_value c = int (of_char c) - 48"

definition decimal :: "string \<Rightarrow> int" where
  "decimal s = foldl (\<lambda>n c. 10 * n + digit_value c) 0 s"

text \<open>
  \<open>$toInt\<close>: null for a null or missing operand, the value of a string of decimal digits,
  and a conversion error, which fails the whole aggregation, for another string.
\<close>

definition toInt :: "string field \<Rightarrow> string + int field" where
  "toInt v =
     (case v of
        Val s \<Rightarrow> (if s \<noteq> [] \<and> list_all is_digit s then Inr (Val (decimal s))
                  else Inl (''Failed to parse number '' @ s))
      | _ \<Rightarrow> Inr Null)"

definition add_op :: "int field \<Rightarrow> int \<Rightarrow> int field" where
  "add_op v n = (case v of Val x \<Rightarrow> Val (x + n) | _ \<Rightarrow> Null)"

text \<open>
  The pattern \<open>/^\d{1,2}-[A-Za-z]{3}-\d{2}$/\<close> as the store's engine runs it: \<open>^\<close> is
  the start of the string, and \<open>$\<close> is the end of the string or the place before a line
  feed that ends the string.
\<close>

definition dollar :: "string \<Rightarrow> bool" where
  "dollar e = (e = [] \<or> e = [CHR 0x0A])"

definition date_tail :: "string \<Rightarrow> bool" where
  "date_tail s =
     (case s of
        h1 # a # b # c # h2 # y1 # y2 # e \<Rightarrow>
          h1 = CHR ''-'' \<and> is_alpha a \<and> is_alpha b \<and> is_alpha c \<and> h2 = CHR ''-'' \<and>
          is_digit y1 \<and> is_digit y2 \<and> dollar e
      | _ \<Rightarrow> False)"

definition date_regex :: "string \<Rightarrow> bool" where
  "date_regex s =
     (case s of
        [] \<Rightarrow> False
      | d1 # r \<Rightarrow>
          is_digit d1 \<and>
          (date_tail r \<or> (case r of [] \<Rightarrow> False | d2 # r' \<Rightarrow> is_digit d2 \<and> date_tail r')))"

section \<open>The controllers\<close>

definition getAllMovies :: "store \<Rightarrow> response \<times> store" where
  "getAllMovies st =
     (case run_query st (\<lambda>ds. Inr ds) of
        (Inr movies, st') \<Rightarrow> (Response 200 (Movies movies), st')
      | (Inl e, st') \<Rightarrow> (Response 500 (Message e), st'))"

text \<open>
  The rating is what \<open>parseFloat\<close> made of the path parameter, here a number. The other
  outcome of \<open>parseFloat\<close>, NaN, is not a value of this model: what the query layer does
  with it is not in the controller.
\<close>

definition getMoviesWithRatingAboveSpecified :: "store \<Rightarrow> rat \<Rightarrow> response \<times> store" where
  "getMoviesWithRatingAboveSpecified st rating =
     (case run_query st (\<lambda>ds. Inr (filter (\<lambda>m. gte rating (ReviewRating m)) ds)) of
        (Inr movies, st') \<Rightarrow> (Response 200 (Movies movies), st')
      | (Inl e, st') \<Rightarrow> (Response 500 (Message e), st'))"

definition getMoviesWithBestRating :: "store \<Rightarrow> response \<times> store" where
  "getMoviesWithBestRating st =
     (case run_query st
             (\<lambda>ds. Inr (limit 10 (sort_desc (\<lambda>m. sort_value (ReviewRating m)) ds))) of
        (Inr movies, st') \<Rightarrow> (Response 200 (Movies movies), st')
      | (Inl e, st') \<Rightarrow> (Response 500 (Message e), st'))"

subsection \<open>Movies per year\<close>

definition release_year :: "movie \<Rightarrow> string + int field" where
  "release_year m =
     (case toInt (arrayElemAt (split_op (ReleaseDate m) CHR ''-'') 2) of
        Inl e \<Rightarrow> Inl e
      | Inr yearNum \<Rightarrow> Inr (add_op yearNum 2000))"

fun add_release_year :: "movie list \<Rightarrow> string + (movie \<times> int field) list" where
  "add_release_year [] = Inr []"
| "add_release_year (m # ms) =
     (case release_year m of
        Inl e \<Rightarrow> Inl e
      | Inr y \<Rightarrow>
          (case add_release_year ms of Inl e \<Rightarrow> Inl e | Inr r \<Rightarrow> Inr ((m, y) # r)))"

definition year_pipeline :: "movie list \<Rightarrow> string + year_group list" where
  "year_pipeline ds =
     (case add_release_year (filter (\<lambda>m. regex date_regex (ReleaseDate m)) ds) of
        Inl e \<Rightarrow> Inl e
      | Inr with_year \<Rightarrow>
          Inr (sort_asc (\<lambda>g. sort_value (yg_id g))
                 (map (\<lambda>(k, ms). \<lparr>yg_id = k, yg_count = length ms\<rparr>)
                    (group_by snd with_year))))"

definition getMoviesPerYear :: "store \<Rightarrow> response \<times> store" where
  "getMoviesPerYear st =
     (case run_query st year_pipeline of
        (Inr moviesPerYear, st') \<Rightarrow> (Response 200 (YearCounts moviesPerYear), st')
      | (Inl e, st') \<Rightarrow> (Response 500 (Message e), st'))"

subsection \<open>Top countries by rating\<close>

text \<open>
  The store's regular expression engine under option \<open>i\<close> is not part of the controller
  and is a parameter: for a pattern it gives either the error text of a pattern that does
  not compile, or the test whether the pattern matches somewhere in a string.
\<close>

type_synonym regex_engine = "string \<Rightarrow> string + (string \<Rightarrow> bool)"

text \<open>
  \<open>req.query.country\<close>: undefined or a string; the empty string is falsy. A repeated or
  nested parameter, which the query parser turns into an array or an object, is not a
  value of this model.
\<close>

definition truthy :: "string option \<Rightarrow> bool" where
  "truthy q = (case q of None \<Rightarrow> False | Some s \<Rightarrow> s \<noteq> [])"

definition country_filter ::
  "regex_engine \<Rightarrow> string option \<Rightarrow> country_group list \<Rightarrow> string + country_group list" where
  "country_filter rx countryQuery gs =
     (case countryQuery of
        None \<Rightarrow> Inr gs
      | Some q \<Rightarrow>
          (if q = [] then Inr gs
           else (case rx q of
                   Inl e \<Rightarrow> Inl e
                 | Inr p \<Rightarrow> Inr (filter (\<lambda>g. regex p (cg_id g)) gs))))"

definition country_groups :: "movie list \<Rightarrow> country_group list" where
  "country_groups ds =
     filter (\<lambda>g. 10 \<le> movieCount g)
       (map (\<lambda>(k, ms). \<lparr>cg_id = k, avgRating = avg (map ReviewRating ms),
                        movieCount = length ms\<rparr>)
          (group_by ReleaseCountry
             (filter (\<lambda>m. exists_ne_null (ReviewRating m) \<and> exists_ne_null (ReleaseCountry m))
                ds)))"

definition country_pipeline ::
  "regex_engine \<Rightarrow> string option \<Rightarrow> movie list \<Rightarrow> string + country_group list" where
  "country_pipeline rx countryQuery ds =
     (case country_filter rx countryQuery (country_groups ds) of
        Inl e \<Rightarrow> Inl e
      | Inr gs \<Rightarrow> Inr (sort_desc (\<lambda>g. sort_value (avgRating g)) gs))"

text \<open>The template literal of the 404 body; an undefined value would print as its name.\<close>

definition template_text :: "string option \<Rightarrow> string" where
  "template_text q = (case q of None \<Rightarrow> ''undefined'' | Some s \<Rightarrow> s)"

definition not_found_message :: "string \<Rightarrow> string" where
  "not_found_message q =
     ''Country '' @ [CHR 0x22] @ q @ [CHR 0x22] @ '' not found or has fewer than 10 movies.''"

definition getTopCountriesByRating ::
  "regex_engine \<Rightarrow> store \<Rightarrow> string option \<Rightarrow> response \<times> store" where
  "getTopCountriesByRating rx st countryQuery =
     (case run_query st (country_pipeline rx countryQuery) of
        (Inr topCountries, st') \<Rightarrow>
          (if truthy countryQuery \<and> length topCountries = 0
           then (Response 404 (Message (not_found_message (template_text countryQuery))), st')
           else (Response 200 (Countries topCountries), st'))
      | (Inl e, st') \<Rightarrow> (Response 500 (Message e), st'))"

section \<open>Notions of the specification\<close>

text \<open>The qualifying records of a country, and the mean of their ratings.\<close>

definition qualifying :: "string \<Rightarrow> movie list \<Rightarrow> movie list" where
  "qualifying c ds =
     filter (\<lambda>m. ReleaseCountry m = Val c \<and> exists_ne_null (ReviewRating m)) ds"

definition mean_rating :: "string \<Rightarrow> movie list \<Rightarrow> rat" where
  "mean_rating c ds =
     sum_list (numbers (map ReviewRating (qualifying c ds))) / of_nat (length (qualifying c ds))"

text \<open>
  The date pattern in the words of the specification: one or two digits, a hyphen, three
  letters, a hyphen, two digits, and nothing else; and the year it stands for.
\<close>

definition conforming :: "string \<Rightarrow> bool" where
  "conforming s =
     (\<exists>d m y. s = d @ ''-'' @ m @ ''-'' @ y \<and>
        (length d = 1 \<or> length d = 2) \<and> list_all is_digit d \<and>
        length m = 3 \<and> list_all is_alpha m \<and>
        length y = 2 \<and> list_all is_digit y)"

definition trailing_year :: "string \<Rightarrow> int" where
  "trailing_year s = 2000 + decimal (drop (length s - 2) s)"

definition conforming_movie :: "movie \<Rightarrow> bool" where
  "conforming_movie m = (case ReleaseDate m of Val s \<Rightarrow> conforming s | _ \<Rightarrow> False)"

definition movie_year :: "movie \<Rightarrow> int" where
  "movie_year m = (case ReleaseDate m of Val s \<Rightarrow> trailing_year s | _ \<Rightarrow> 0)"

text \<open>Containment of a literal text in a string, ignoring the case of ASCII letters.\<close>

definition to_lower :: "char \<Rightarrow> char" where
  "to_lower c =
     (case map_of (zip ''ABCDEFGHIJKLMNOPQRSTUVWXYZ'' ''abcdefghijklmnopqrstuvwxyz'') c of
        Some l \<Rightarrow> l
      | None \<Rightarrow> c)"

fun search :: "(string \<Rightarrow> bool) \<Rightarrow> string \<Rightarrow> bool" where
  "search here [] = here []"
| "search here (c # cs) = (here (c # cs) \<or> search here cs)"



text \<open>
  The characters a regular expression reads as operators, and the engines that read a
  pattern without any of them as the literal text.
\<close>

definition metachars :: "char list" where
  "metachars = CHR 0x5C # ''^$.|?*+()[]{}''"



subsection \<open>Data for closed examples\<close>

text \<open>
  A small engine: ordinary characters stand for themselves, ignoring case, and a dot for
  any character but a line feed. It refuses every other operator.
\<close>

fun atoms_at :: "string \<Rightarrow> string \<Rightarrow> bool" where
  "atoms_at [] s = True"
| "atoms_at (p # ps) [] = False"
| "atoms_at (p # ps) (c # cs) =
     ((if p = CHR ''.'' then c \<noteq> CHR 0x0A else to_lower p = to_lower c) \<and> atoms_at ps cs)"

definition dot_engine :: regex_engine where
  "dot_engine q =
     (if list_all (\<lambda>c. c = CHR ''.'' \<or> c \<notin> set metachars) q then Inr (search (atoms_at q))
      else Inl ''unsupported pattern'')"

definition blank :: movie where
  "blank = \<lparr>Title = Absent, Genres = Absent, ReleaseDate = Absent, ReleaseCountry = Absent,
            ReviewRating = Absent, MovieRunTime = Absent, Plot = Absent, Cast = Absent,
            Language = Absent, FilmingLocations = Absent\<rparr>"

definition rated_in :: "string \<Rightarrow> rat \<Rightarrow> movie" where
  "rated_in c r = blank\<lparr>ReleaseCountry := Val c, ReviewRating := Val r\<rparr>"

definition released_on :: "string \<Rightarrow> movie" where
  "released_on d = blank\<lparr>ReleaseDate := Val d\<rparr>"

definition serving :: "movie list \<Rightarrow> store" where
  "serving ds = \<lparr>docs = ds, failure = None, calls = 0\<rparr>"

definition refusing :: "string \<Rightarrow> store" where
  "refusing e = \<lparr>docs = [], failure = Some e, calls = 0\<rparr>"

definition usa_store :: store where
  "usa_store = serving (replicate 10 (rated_in ''USA'' 7))"

definition norway_sweden :: store where
  "norway_sweden =
     serving (replicate 6 (rated_in ''Norway'' 7) @ replicate 6 (rated_in ''Norway'' 8) @
              replicate 9 (rated_in ''Sweden'' 9))"

definition mixed_store :: store where
  "mixed_store =
     serving [rated_in ''A'' 8, blank, rated_in ''B'' 5, blank\<lparr>ReviewRating := Null\<rparr>,
              rated_in ''C'' 7]"

definition sparse_store :: store where
  "sparse_store = serving (map (rated_in ''X'') [3, 9, 5] @ replicate 8 blank)"

definition dated_store :: store where
  "dated_store =
     serving [released_on ''5-Jul-98'', released_on ''12-Jan-03'', blank,
              released_on ''1998'', released_on ''1-Feb-03'']"

definition line_feed_store :: store where
  "line_feed_store =
     serving [released_on ''12-Jan-03'', released_on (''5-Jul-98'' @ [CHR 0x0A])]"

section \<open>Basic facts\<close>

lemma run_query_fail:
  "failure st = Some e \<Longrightarrow> run_query st q = (Inl e, st\<lparr>calls := calls st + 1\<rparr>)"
  by (simp add: run_query_def)

lemma run_query_ok:
  "failure st = None \<Longrightarrow> run_query st q = (q (docs st), st\<lparr>calls := calls st + 1\<rparr>)"
  by (simp add: run_query_def)

lemma sort_desc_sorted: "sorted_wrt (\<lambda>a b. f b \<le> f a) (sort_desc f xs)"
proof -
  have "sorted_wrt (\<lambda>a b. f a \<le> f b) (sort_key f xs)"
    using sorted_sort_key [of f xs] by (simp add: sorted_wrt_map)
  then show ?thesis by (simp add: sort_desc_def sorted_wrt_rev)
qed

lemma sort_desc_mset [simp]: "mset (sort_desc f xs) = mset xs"
  by (simp add: sort_desc_def)

lemma sort_desc_set [simp]: "set (sort_desc f xs) = set xs"
  by (simp add: sort_desc_def)

lemma sort_desc_length [simp]: "length (sort_desc f xs) = length xs"
  by (simp add: sort_desc_def)

lemma sort_desc_eq_Nil [simp]: "sort_desc f xs = [] \<longleftrightarrow> xs = []"
  by (simp add: sort_desc_def) (metis length_0_conv length_sort)

lemma sort_desc_distinct_map: "distinct (map g (sort_desc f xs)) = distinct (map g xs)"
  by (metis distinct_map distinct_sort distinct_rev set_rev set_sort sort_desc_def)

lemma sort_value_None: "sort_value f = None \<longleftrightarrow> \<not> exists_ne_null f"
  by (cases f) (simp_all add: sort_value_def exists_ne_null_def)

lemma exists_ne_null_Val: "exists_ne_null f \<longleftrightarrow> (\<exists>x. f = Val x)"
  by (cases f) (simp_all add: exists_ne_null_def)

section \<open>Store failures\<close>

lemma top_countries_fail:
  "failure st = Some e \<Longrightarrow>
   getTopCountriesByRating rx st q = (Response 500 (Message e), st\<lparr>calls := calls st + 1\<rparr>)"
  by (simp add: getTopCountriesByRating_def run_query_fail)

text \<open>
  Claim C8. When the store rejects the call with an error text, each of the five
  controllers answers 500 with that text as the message, after exactly one call of the
  store. For the top countries this holds whatever the country parameter is, so a failing
  store never gives 404; a pattern that the store's engine rejects fails the aggregation
  and gives 500 with the engine's text as well.
\<close>

theorem store_failure_gives_500:
  "(failure st = Some e \<longrightarrow>
      getAllMovies st = (Response 500 (Message e), st\<lparr>calls := calls st + 1\<rparr>) \<and>
      getMoviesWithRatingAboveSpecified st rating =
        (Response 500 (Message e), st\<lparr>calls := calls st + 1\<rparr>) \<and>
      getMoviesWithBestRating st = (Response 500 (Message e), st\<lparr>calls := calls st + 1\<rparr>) \<and>
      getMoviesPerYear st = (Response 500 (Message e), st\<lparr>calls := calls st + 1\<rparr>) \<and>
      getTopCountriesByRating rx st countryQuery =
        (Response 500 (Message e), st\<lparr>calls := calls st + 1\<rparr>)) \<and>
   (failure st = None \<and> q \<noteq> [] \<and> rx q = Inl e \<longrightarrow>
      getTopCountriesByRating rx st (Some q) =
        (Response 500 (Message e), st\<lparr>calls := calls st + 1\<rparr>))"
  by (simp add: run_query_fail run_query_ok getAllMovies_def
      getMoviesWithRatingAboveSpecified_def getMoviesWithBestRating_def getMoviesPerYear_def
      getTopCountriesByRating_def country_pipeline_def country_filter_def)

theorem store_failure_gives_500_witness:
  "failure (refusing ''connection refused'') = Some ''connection refused'' \<and>
   fst (getAllMovies (refusing ''connection refused'')) =
     Response 500 (Message ''connection refused'') \<and>
   fst (getMoviesWithRatingAboveSpecified (refusing ''connection refused'') 7) =
     Response 500 (Message ''connection refused'') \<and>
   fst (getMoviesWithBestRating (refusing ''connection refused'')) =
     Response 500 (Message ''connection refused'') \<and>
   fst (getMoviesPerYear (refusing ''connection refused'')) =
     Response 500 (Message ''connection refused'') \<and>
   getTopCountriesByRating dot_engine (refusing ''connection refused'') (Some ''Atlantis'') =
     (Response 500 (Message ''connection refused''),
      (refusing ''connection refused'')\<lparr>calls := 1\<rparr>) \<and>
   failure usa_store = None \<and> dot_engine ''(us'' = Inl ''unsupported pattern'' \<and>
   fst (getTopCountriesByRating dot_engine usa_store (Some ''(us'')) =
     Response 500 (Message ''unsupported pattern'')"
proof -
  have a: "failure (refusing ''connection refused'') = Some ''connection refused''"
    by (simp add: refusing_def)
  have b: "failure usa_store = None \<and> ''(us'' \<noteq> [] \<and> dot_engine ''(us'' = Inl ''unsupported pattern''"
    by (simp add: usa_store_def serving_def dot_engine_def metachars_def)
  have c: "calls (refusing ''connection refused'') + 1 = 1"
    by (simp add: refusing_def)
  show ?thesis
    using a b c
      store_failure_gives_500 [of "refusing ''connection refused''" "''connection refused''" 7
        dot_engine "Some ''Atlantis''" "''(us''"]
      store_failure_gives_500 [of usa_store "''unsupported pattern''" 7
        dot_engine "Some ''Atlantis''" "''(us''"]
    by simp
qed

section \<open>Minimum rating\<close>

text \<open>
  Claim C5. On a store that answers, for every numeric threshold \<open>r\<close> the movies returned
  for \<open>r\<close> are exactly the movies of the full listing whose rating is present and at least
  \<open>r\<close>, in the order of the listing; none of them has an absent or null rating.
\<close>

theorem min_rating_is_subset_of_all:
  "failure st = None \<longrightarrow>
     (\<exists>ms all. fst (getMoviesWithRatingAboveSpecified st r) = Response 200 (Movies ms) \<and>
        fst (getAllMovies st) = Response 200 (Movies all) \<and>
        ms = filter (\<lambda>m. \<exists>x. ReviewRating m = Val x \<and> r \<le> x) all \<and>
        (\<forall>m \<in> set ms. ReviewRating m \<noteq> Absent \<and> ReviewRating m \<noteq> Null))"
proof -
  have "gte r f \<longleftrightarrow> (\<exists>x. f = Val x \<and> r \<le> x)" for f
    by (cases f) (simp_all add: gte_def)
  then show ?thesis
    by (auto simp add: getMoviesWithRatingAboveSpecified_def getAllMovies_def run_query_ok)
qed

theorem min_rating_is_subset_of_all_witness:
  "failure mixed_store = None \<and>
   fst (getMoviesWithRatingAboveSpecified mixed_store 7) =
     Response 200 (Movies [rated_in ''A'' 8, rated_in ''C'' 7]) \<and>
   (\<exists>ms all. fst (getMoviesWithRatingAboveSpecified mixed_store 7) = Response 200 (Movies ms) \<and>
      fst (getAllMovies mixed_store) = Response 200 (Movies all) \<and>
      ms = filter (\<lambda>m. \<exists>x. ReviewRating m = Val x \<and> 7 \<le> x) all \<and>
      (\<forall>m \<in> set ms. ReviewRating m \<noteq> Absent \<and> ReviewRating m \<noteq> Null))"
proof -
  have a: "failure mixed_store = None"
    by (simp add: mixed_store_def serving_def)
  have b: "fst (getMoviesWithRatingAboveSpecified mixed_store 7) =
     Response 200 (Movies [rated_in ''A'' 8, rated_in ''C'' 7])"
    by code_simp
  show ?thesis
    using a b min_rating_is_subset_of_all [of mixed_store 7] by blast
qed

section \<open>Top rated\<close>

lemma best_rating_ok:
  "failure st = None \<Longrightarrow>
   fst (getMoviesWithBestRating st) =
     Response 200 (Movies (take 10 (sort_desc (\<lambda>m. sort_value (ReviewRating m)) (docs st))))"
  by (simp add: getMoviesWithBestRating_def run_query_ok limit_def)

lemma best_rating_movies:
  "fst (getMoviesWithBestRating st) = Response s (Movies ms) \<Longrightarrow>
   failure st = None \<and> ms = take 10 (sort_desc (\<lambda>m. sort_value (ReviewRating m)) (docs st))"
  by (cases "failure st") (simp_all add: getMoviesWithBestRating_def run_query_def limit_def)

text \<open>
  Claim C7. A store that answers gives a list of movies, and whenever the controller
  returns movies, for every store state: they are at most 10, all of them stored records,
  and of two returned records the earlier one never ranks below the later one in the
  store's order of ratings (null and missing lowest); in particular, when the later one has
  a rating, the earlier one has a rating too, and it is at least as high.
\<close>

theorem top_rated_bounded_sorted:
  "(failure st = None \<longrightarrow> (\<exists>ms. fst (getMoviesWithBestRating st) = Response 200 (Movies ms))) \<and>
   (\<forall>s ms. fst (getMoviesWithBestRating st) = Response s (Movies ms) \<longrightarrow>
      length ms \<le> 10 \<and> mset ms \<subseteq># mset (docs st) \<and>
      (\<forall>i j. i < j \<and> j < length ms \<longrightarrow>
         sort_value (ReviewRating (ms ! j)) \<le> sort_value (ReviewRating (ms ! i)) \<and>
         (\<forall>y. ReviewRating (ms ! j) = Val y \<longrightarrow>
            (\<exists>x. ReviewRating (ms ! i) = Val x \<and> y \<le> x))))"
proof (intro conjI allI impI)
  assume "failure st = None"
  then show "\<exists>ms. fst (getMoviesWithBestRating st) = Response 200 (Movies ms)"
    by (simp add: best_rating_ok)
next
  fix s ms
  assume "fst (getMoviesWithBestRating st) = Response s (Movies ms)"
  then have ms: "ms = take 10 (sort_desc (\<lambda>m. sort_value (ReviewRating m)) (docs st))"
    by (simp add: best_rating_movies)
  show "length ms \<le> 10" by (simp add: ms)
  have "mset ms \<subseteq># mset (sort_desc (\<lambda>m. sort_value (ReviewRating m)) (docs st))"
    unfolding ms by (metis append_take_drop_id mset_subset_eq_add_left mset_append)
  then show "mset ms \<subseteq># mset (docs st)" by simp
  have srt: "sorted_wrt (\<lambda>a b. sort_value (ReviewRating b) \<le> sort_value (ReviewRating a)) ms"
    unfolding ms by (rule sorted_wrt_take) (rule sort_desc_sorted)
  fix i j
  assume ij: "i < j \<and> j < length ms"
  with srt show le: "sort_value (ReviewRating (ms ! j)) \<le> sort_value (ReviewRating (ms ! i))"
    by (simp add: sorted_wrt_iff_nth_less)
  fix y
  assume "ReviewRating (ms ! j) = Val y"
  then have "Some y \<le> sort_value (ReviewRating (ms ! i))"
    using le by (simp add: sort_value_def)
  then show "\<exists>x. ReviewRating (ms ! i) = Val x \<and> y \<le> x"
    by (cases "ReviewRating (ms ! i)") (simp_all add: sort_value_def)
qed

theorem top_rated_bounded_sorted_witness:
  "failure mixed_store = None \<and>
   fst (getMoviesWithBestRating mixed_store) =
     Response 200 (Movies [rated_in ''A'' 8, rated_in ''C'' 7, rated_in ''B'' 5,
                           blank\<lparr>ReviewRating := Null\<rparr>, blank]) \<and>
   length [rated_in ''A'' 8, rated_in ''C'' 7, rated_in ''B'' 5,
           blank\<lparr>ReviewRating := Null\<rparr>, blank] \<le> 10 \<and>
   sort_value (ReviewRating ([rated_in ''A'' 8, rated_in ''C'' 7, rated_in ''B'' 5,
                              blank\<lparr>ReviewRating := Null\<rparr>, blank] ! 3))
     \<le> sort_value (ReviewRating ([rated_in ''A'' 8, rated_in ''C'' 7, rated_in ''B'' 5,
                                  blank\<lparr>ReviewRating := Null\<rparr>, blank] ! 1)) \<and>
   (\<exists>x. ReviewRating ([rated_in ''A'' 8, rated_in ''C'' 7, rated_in ''B'' 5,
                        blank\<lparr>ReviewRating := Null\<rparr>, blank] ! 0) = Val x \<and> 5 \<le> x)"
proof -
  let ?L = "[rated_in ''A'' 8, rated_in ''C'' 7, rated_in ''B'' 5,
             blank\<lparr>ReviewRating := Null\<rparr>, blank]"
  have a: "failure mixed_store = None"
    by (simp add: mixed_store_def serving_def)
  have b: "fst (getMoviesWithBestRating mixed_store) = Response 200 (Movies ?L)"
    by code_simp
  from top_rated_bounded_sorted [of mixed_store] b
  have c: "length ?L \<le> 10"
    and d: "\<forall>i j. i < j \<and> j < length ?L \<longrightarrow>
         sort_value (ReviewRating (?L ! j)) \<le> sort_value (ReviewRating (?L ! i)) \<and>
         (\<forall>y. ReviewRating (?L ! j) = Val y \<longrightarrow>
            (\<exists>x. ReviewRating (?L ! i) = Val x \<and> y \<le> x))"
    by blast+
  have e: "(1::nat) < 3 \<and> 3 < length ?L" "(0::nat) < 2 \<and> 2 < length ?L"
    by simp_all
  have f: "ReviewRating (?L ! 2) = Val 5"
    by (simp add: rated_in_def)
  from d e(1) have g: "sort_value (ReviewRating (?L ! 3)) \<le> sort_value (ReviewRating (?L ! 1))"
    by blast
  from d e(2) f have h: "\<exists>x. ReviewRating (?L ! 0) = Val x \<and> 5 \<le> x"
    by blast
  from a b c g h show ?thesis by blast
qed

lemma desc_filter_take:
  fixes k :: "'a \<Rightarrow> 'b::linorder option"
  shows "sorted_wrt (\<lambda>a b. k b \<le> k a) xs \<Longrightarrow> length (filter (\<lambda>m. k m \<noteq> None) xs) \<le> n \<Longrightarrow>
   filter (\<lambda>m. k m \<noteq> None) (take n xs) = filter (\<lambda>m. k m \<noteq> None) xs"
proof (induction xs arbitrary: n)
  case Nil
  then show ?case by simp
next
  case (Cons x xs)
  show ?case
  proof (cases "k x = None")
    case True
    with Cons.prems(1) have "\<forall>y \<in> set xs. k y = None"
      by (auto simp: less_eq_option_None_is_None)
    then have "filter (\<lambda>m. k m \<noteq> None) xs = []" "filter (\<lambda>m. k m \<noteq> None) (take (n - 1) xs) = []"
      by (auto simp: filter_empty_conv dest: in_set_takeD)
    with True show ?thesis by (cases n) simp_all
  next
    case False
    with Cons.prems(2) obtain n' where n: "n = Suc n'" by (cases n) auto
    with Cons.prems False have "filter (\<lambda>m. k m \<noteq> None) (take n' xs) = filter (\<lambda>m. k m \<noteq> None) xs"
      by (intro Cons.IH) auto
    with n False show ?thesis by simp
  qed
qed

text \<open>
  Claim C9. The top-rated query sorts and cuts the whole collection: when the store
  answers and holds at least 10 records of which fewer than 10 have a present, non-null
  rating, the result has 10 records, among them every rated record of the store and at
  least one record whose rating is absent or null, and no rated record comes after an
  unrated one.
\<close>

theorem top_rated_includes_unrated:
  "failure st = None \<and> length (filter (\<lambda>m. exists_ne_null (ReviewRating m)) (docs st)) < 10 \<and>
   10 \<le> length (docs st) \<longrightarrow>
     (\<exists>ms. fst (getMoviesWithBestRating st) = Response 200 (Movies ms) \<and> length ms = 10 \<and>
        (\<exists>m \<in> set ms. ReviewRating m = Absent \<or> ReviewRating m = Null) \<and>
        mset (filter (\<lambda>m. exists_ne_null (ReviewRating m)) ms) =
          mset (filter (\<lambda>m. exists_ne_null (ReviewRating m)) (docs st)) \<and>
        (\<forall>i j. i < j \<and> j < length ms \<and> \<not> exists_ne_null (ReviewRating (ms ! i)) \<longrightarrow>
           \<not> exists_ne_null (ReviewRating (ms ! j))))"
proof (intro impI, elim conjE)
  let ?k = "\<lambda>m. sort_value (ReviewRating m)"
  let ?P = "\<lambda>m. exists_ne_null (ReviewRating m)"
  let ?S = "sort_desc ?k (docs st)"
  let ?ms = "take 10 ?S"
  assume ok: "failure st = None" and few: "length (filter ?P (docs st)) < 10"
    and many: "10 \<le> length (docs st)"
  have P: "?P = (\<lambda>m. ?k m \<noteq> None)" by (simp add: sort_value_None)
  have srtS: "sorted_wrt (\<lambda>a b. ?k b \<le> ?k a) ?S" by (rule sort_desc_sorted)
  have "mset (filter ?P ?S) = mset (filter ?P (docs st))" by simp
  then have lenS: "length (filter ?P ?S) = length (filter ?P (docs st))"
    by (metis size_mset)
  have eq: "filter ?P ?ms = filter ?P ?S"
    unfolding P by (rule desc_filter_take [OF srtS]) (use lenS few in \<open>simp add: P\<close>)
  have len: "length ?ms = 10" using many by simp
  have "length (filter ?P ?ms) < length ?ms" using eq lenS few len by simp
  then obtain m where m: "m \<in> set ?ms" "\<not> ?P m"
    by (metis filter_True order_less_irrefl)
  then have un: "ReviewRating m = Absent \<or> ReviewRating m = Null"
    by (cases "ReviewRating m") (simp_all add: exists_ne_null_def)
  have srt: "sorted_wrt (\<lambda>a b. ?k b \<le> ?k a) ?ms"
    by (rule sorted_wrt_take) (rule srtS)
  have after: "\<not> ?P (?ms ! j)" if "i < j" "j < length ?ms" "\<not> ?P (?ms ! i)" for i j
  proof -
    from srt that have "?k (?ms ! j) \<le> ?k (?ms ! i)" by (simp add: sorted_wrt_iff_nth_less)
    moreover from that have "?k (?ms ! i) = None" by (simp add: sort_value_None)
    ultimately have "?k (?ms ! j) = None" by (simp add: less_eq_option_None_is_None)
    then show ?thesis by (simp add: sort_value_None)
  qed
  show "\<exists>ms. fst (getMoviesWithBestRating st) = Response 200 (Movies ms) \<and> length ms = 10 \<and>
        (\<exists>m \<in> set ms. ReviewRating m = Absent \<or> ReviewRating m = Null) \<and>
        mset (filter ?P ms) = mset (filter ?P (docs st)) \<and>
        (\<forall>i j. i < j \<and> j < length ms \<and> \<not> ?P (ms ! i) \<longrightarrow> \<not> ?P (ms ! j))"
  proof (intro exI [of _ ?ms] conjI allI impI)
    show "fst (getMoviesWithBestRating st) = Response 200 (Movies ?ms)"
      using ok by (simp add: best_rating_ok)
    show "length ?ms = 10" by (rule len)
    show "\<exists>m \<in> set ?ms. ReviewRating m = Absent \<or> ReviewRating m = Null" using m un by blast
    show "mset (filter ?P ?ms) = mset (filter ?P (docs st))" by (simp add: eq)
    fix i j assume "i < j \<and> j < length ?ms \<and> \<not> ?P (?ms ! i)"
    then show "\<not> ?P (?ms ! j)" using after by blast
  qed
qed

theorem top_rated_includes_unrated_witness:
  "failure sparse_store = None \<and>
   length (filter (\<lambda>m. exists_ne_null (ReviewRating m)) (docs sparse_store)) < 10 \<and>
   10 \<le> length (docs sparse_store) \<and>
   fst (getMoviesWithBestRating sparse_store) =
     Response 200 (Movies (map (rated_in ''X'') [9, 5, 3] @ replicate 7 blank)) \<and>
   (\<exists>ms. fst (getMoviesWithBestRating sparse_store) = Response 200 (Movies ms) \<and>
      length ms = 10 \<and> (\<exists>m \<in> set ms. ReviewRating m = Absent \<or> ReviewRating m = Null))"
proof -
  have a: "failure sparse_store = None"
    by (simp add: sparse_store_def serving_def)
  have b: "length (filter (\<lambda>m. exists_ne_null (ReviewRating m)) (docs sparse_store)) < 10"
    by code_simp
  have c: "10 \<le> length (docs sparse_store)"
    by code_simp
  have d: "fst (getMoviesWithBestRating sparse_store) =
     Response 200 (Movies (map (rated_in ''X'') [9, 5, 3] @ replicate 7 blank))"
    by code_simp
  from top_rated_includes_unrated [of sparse_store] a b c
  have "\<exists>ms. fst (getMoviesWithBestRating sparse_store) = Response 200 (Movies ms) \<and>
      length ms = 10 \<and> (\<exists>m \<in> set ms. ReviewRating m = Absent \<or> ReviewRating m = Null)"
    by blast
  with a b c d show ?thesis by blast
qed

section \<open>Top countries: the outcome\<close>

lemma country_filter_falsy: "\<not> truthy q \<Longrightarrow> country_filter rx q gs = Inr gs"
  by (cases q) (simp_all add: country_filter_def truthy_def)

lemma country_pipeline_falsy:
  "\<not> truthy q \<Longrightarrow>
   country_pipeline rx q ds =
     Inr (sort_desc (\<lambda>g. sort_value (avgRating g)) (country_groups ds))"
  by (simp add: country_pipeline_def country_filter_falsy)

lemma top_countries_falsy:
  "\<not> truthy q \<Longrightarrow> failure st = None \<Longrightarrow>
   getTopCountriesByRating rx st q =
     (Response 200
        (Countries (sort_desc (\<lambda>g. sort_value (avgRating g)) (country_groups (docs st)))),
      st\<lparr>calls := calls st + 1\<rparr>)"
  by (simp add: getTopCountriesByRating_def run_query_ok country_pipeline_falsy)

lemma sublist_not_found: "sublist q (not_found_message q)"
  unfolding not_found_message_def sublist_def
  by (rule exI [of _ "''Country '' @ [CHR 0x22]"],
      rule exI [of _ "[CHR 0x22] @ '' not found or has fewer than 10 movies.''"]) simp

text \<open>
  Claim C3. The answer is 404 exactly when a non-empty country filter was given, the
  store answered, and the pipeline with the filter gave no group; the body is then the
  message built around the filter, which it contains. Without a filter, a store that
  answers and has no country with 10 qualifying records gives 200 with the empty list.
\<close>

theorem not_found_iff_filter_and_no_group:
  "(status (fst (getTopCountriesByRating rx st countryQuery)) = 404 \<longleftrightarrow>
      (\<exists>q. countryQuery = Some q \<and> q \<noteq> [] \<and> failure st = None \<and>
           country_pipeline rx countryQuery (docs st) = Inr [])) \<and>
   (status (fst (getTopCountriesByRating rx st countryQuery)) = 404 \<longrightarrow>
      (\<exists>q. countryQuery = Some q \<and>
           body (fst (getTopCountriesByRating rx st countryQuery)) =
             Message (not_found_message q) \<and>
           sublist q (not_found_message q))) \<and>
   (countryQuery = None \<and> failure st = None \<and> country_groups (docs st) = [] \<longrightarrow>
      fst (getTopCountriesByRating rx st countryQuery) = Response 200 (Countries []))"
proof (cases "failure st")
  case (Some e)
  then show ?thesis by (simp add: top_countries_fail)
next
  case None
  show ?thesis
  proof (cases "truthy countryQuery")
    case False
    with None show ?thesis
      by (cases countryQuery) (simp_all add: top_countries_falsy truthy_def)
  next
    case True
    then obtain q where q: "countryQuery = Some q" "q \<noteq> []"
      by (cases countryQuery) (simp_all add: truthy_def)
    show ?thesis
    proof (cases "country_pipeline rx (Some q) (docs st)")
      case (Inl e)
      with None q show ?thesis by (simp add: getTopCountriesByRating_def run_query_ok)
    next
      case (Inr gs)
      with None q show ?thesis
        by (cases gs) (simp_all add: getTopCountriesByRating_def run_query_ok truthy_def
            template_text_def sublist_not_found)
    qed
  qed
qed

theorem not_found_iff_filter_and_no_group_witness:
  "country_pipeline dot_engine (Some ''Atlantis'') (docs usa_store) = Inr [] \<and>
   fst (getTopCountriesByRating dot_engine usa_store (Some ''Atlantis'')) =
     Response 404
       (Message (''Country '' @ [CHR 0x22] @ ''Atlantis'' @ [CHR 0x22] @
                 '' not found or has fewer than 10 movies.'')) \<and>
   country_groups (docs (serving [])) = [] \<and>
   fst (getTopCountriesByRating dot_engine (serving []) None) = Response 200 (Countries [])"
proof -
  have a: "failure usa_store = None" "failure (serving []) = None"
    by (simp_all add: usa_store_def serving_def)
  have b: "country_pipeline dot_engine (Some ''Atlantis'') (docs usa_store) = Inr []"
    by code_simp
  have c: "country_groups (docs (serving [])) = []"
    by code_simp
  have d: "status (fst (getTopCountriesByRating dot_engine usa_store (Some ''Atlantis''))) = 404"
    using a b not_found_iff_filter_and_no_group [of dot_engine usa_store "Some ''Atlantis''"]
    by blast
  then have "body (fst (getTopCountriesByRating dot_engine usa_store (Some ''Atlantis''))) =
      Message (not_found_message ''Atlantis'')"
    using not_found_iff_filter_and_no_group [of dot_engine usa_store "Some ''Atlantis''"]
    by auto
  with d have e: "fst (getTopCountriesByRating dot_engine usa_store (Some ''Atlantis'')) =
      Response 404 (Message (not_found_message ''Atlantis''))"
    by (cases "fst (getTopCountriesByRating dot_engine usa_store (Some ''Atlantis''))") simp
  have f: "fst (getTopCountriesByRating dot_engine (serving []) None) = Response 200 (Countries [])"
    using a c not_found_iff_filter_and_no_group [of dot_engine "serving []" None] by blast
  show ?thesis using b c e f by (simp add: not_found_message_def)
qed

text \<open>
  Claim C10. With the empty string as country parameter the controller does, on every
  store and with every engine, what it does without the parameter: no filter stage, never
  a 404, and 200 with the empty list when the store answers and no country has 10
  qualifying records.
\<close>

theorem empty_filter_is_no_filter:
  "getTopCountriesByRating rx st (Some []) = getTopCountriesByRating rx st None \<and>
   country_pipeline rx (Some []) (docs st) = country_pipeline rx None (docs st) \<and>
   status (fst (getTopCountriesByRating rx st (Some []))) \<noteq> 404 \<and>
   (failure st = None \<and> country_groups (docs st) = [] \<longrightarrow>
      fst (getTopCountriesByRating rx st (Some [])) = Response 200 (Countries []))"
proof (cases "failure st")
  case None
  then show ?thesis by (simp add: top_countries_falsy country_pipeline_falsy truthy_def)
next
  case (Some e)
  then show ?thesis by (simp add: top_countries_fail country_pipeline_falsy truthy_def)
qed

theorem empty_filter_is_no_filter_witness:
  "failure (serving []) = None \<and> country_groups (docs (serving [])) = [] \<and>
   fst (getTopCountriesByRating dot_engine (serving []) (Some [])) = Response 200 (Countries [])"
proof -
  have a: "failure (serving []) = None"
    by (simp add: serving_def)
  have c: "country_groups (docs (serving [])) = []"
    by code_simp
  show ?thesis
    using a c empty_filter_is_no_filter [of dot_engine "serving []"] by blast
qed

section \<open>Top countries: the groups\<close>

lemma numbers_length:
  "\<forall>m \<in> set ms. exists_ne_null (ReviewRating m) \<Longrightarrow>
   length (numbers (map ReviewRating ms)) = length ms"
  by (induction ms) (auto simp: numbers_def exists_ne_null_Val)

lemma avg_qualifying:
  "qualifying c ds \<noteq> [] \<Longrightarrow> avg (map ReviewRating (qualifying c ds)) = Val (mean_rating c ds)"
proof -
  assume ne: "qualifying c ds \<noteq> []"
  have "length (numbers (map ReviewRating (qualifying c ds))) = length (qualifying c ds)"
    by (rule numbers_length) (simp add: qualifying_def)
  with ne show ?thesis by (auto simp: avg_def mean_rating_def)
qed

lemma members_qualifying:
  "filter (\<lambda>x. ReleaseCountry x = Val c)
     (filter (\<lambda>m. exists_ne_null (ReviewRating m) \<and> exists_ne_null (ReleaseCountry m)) ds) =
   qualifying c ds"
  by (induction ds) (auto simp: qualifying_def exists_ne_null_Val)

lemma country_groups_eq:
  "country_groups ds =
     map (\<lambda>k. \<lparr>cg_id = k,
                avgRating = avg (map ReviewRating (filter (\<lambda>x. ReleaseCountry x = k)
                  (filter (\<lambda>m. exists_ne_null (ReviewRating m) \<and> exists_ne_null (ReleaseCountry m)) ds))),
                movieCount = length (filter (\<lambda>x. ReleaseCountry x = k)
                  (filter (\<lambda>m. exists_ne_null (ReviewRating m) \<and> exists_ne_null (ReleaseCountry m)) ds))\<rparr>)
       (filter (\<lambda>k. 10 \<le> length (filter (\<lambda>x. ReleaseCountry x = k)
                  (filter (\<lambda>m. exists_ne_null (ReviewRating m) \<and> exists_ne_null (ReleaseCountry m)) ds)))
          (remdups (map ReleaseCountry
             (filter (\<lambda>m. exists_ne_null (ReviewRating m) \<and> exists_ne_null (ReleaseCountry m)) ds))))"
  unfolding country_groups_def group_by_def
  by (simp only: filter_map map_map comp_def prod.case country_group.simps)

lemma country_groups_set:
  "g \<in> set (country_groups ds) \<longleftrightarrow>
     (\<exists>c. g = \<lparr>cg_id = Val c, avgRating = Val (mean_rating c ds),
                movieCount = length (qualifying c ds)\<rparr> \<and>
          10 \<le> length (qualifying c ds))"
proof -
  define Q where
    "Q = filter (\<lambda>m. exists_ne_null (ReviewRating m) \<and> exists_ne_null (ReleaseCountry m)) ds"
  define G where
    "G = (\<lambda>k. \<lparr>cg_id = k,
               avgRating = avg (map ReviewRating (filter (\<lambda>x. ReleaseCountry x = k) Q)),
               movieCount = length (filter (\<lambda>x. ReleaseCountry x = k) Q)\<rparr>)"
  have cg: "set (country_groups ds) =
      G ` {k \<in> ReleaseCountry ` set Q. 10 \<le> length (filter (\<lambda>x. ReleaseCountry x = k) Q)}"
    unfolding country_groups_eq Q_def G_def by (simp only: set_map set_filter set_remdups)
  have mq: "filter (\<lambda>x. ReleaseCountry x = Val c) Q = qualifying c ds" for c
    unfolding Q_def by (rule members_qualifying)
  have keys: "\<exists>c. k = Val c" if "k \<in> ReleaseCountry ` set Q" for k
    using that unfolding Q_def by (auto simp: exists_ne_null_Val)
  have G: "G (Val c) = \<lparr>cg_id = Val c, avgRating = Val (mean_rating c ds),
                movieCount = length (qualifying c ds)\<rparr>" if "10 \<le> length (qualifying c ds)" for c
  proof -
    from that have "qualifying c ds \<noteq> []" by auto
    then show ?thesis by (simp add: G_def mq avg_qualifying)
  qed
  have inQ: "Val c \<in> ReleaseCountry ` set Q" if "10 \<le> length (qualifying c ds)" for c
  proof -
    from that have "qualifying c ds \<noteq> []" by auto
    then obtain m where "m \<in> set (filter (\<lambda>x. ReleaseCountry x = Val c) Q)"
      unfolding mq by (cases "qualifying c ds") auto
    then show ?thesis by force
  qed
  show ?thesis
  proof
    assume "g \<in> set (country_groups ds)"
    then obtain k where k: "k \<in> ReleaseCountry ` set Q"
      "10 \<le> length (filter (\<lambda>x. ReleaseCountry x = k) Q)" "g = G k"
      unfolding cg by blast
    from keys k(1) obtain c where c: "k = Val c" by blast
    with k(2) have "10 \<le> length (qualifying c ds)" by (simp add: mq)
    with G k(3) c show "\<exists>c. g = \<lparr>cg_id = Val c, avgRating = Val (mean_rating c ds),
                movieCount = length (qualifying c ds)\<rparr> \<and> 10 \<le> length (qualifying c ds)"
      by blast
  next
    assume "\<exists>c. g = \<lparr>cg_id = Val c, avgRating = Val (mean_rating c ds),
                movieCount = length (qualifying c ds)\<rparr> \<and> 10 \<le> length (qualifying c ds)"
    then obtain c where g: "g = \<lparr>cg_id = Val c, avgRating = Val (mean_rating c ds),
                movieCount = length (qualifying c ds)\<rparr>" and ten: "10 \<le> length (qualifying c ds)"
      by blast
    have "Val c \<in> {k \<in> ReleaseCountry ` set Q. 10 \<le> length (filter (\<lambda>x. ReleaseCountry x = k) Q)}"
      using inQ [OF ten] ten by (simp add: mq)
    then have "G (Val c) \<in> set (country_groups ds)"
      unfolding cg by (rule imageI)
    with G [OF ten] g show "g \<in> set (country_groups ds)" by simp
  qed
qed

lemma country_groups_distinct: "distinct (map cg_id (country_groups ds))"
  unfolding country_groups_eq
  by (simp only: map_map comp_def country_group.simps map_ident distinct_filter distinct_remdups)

text \<open>
  Claim C1. Without a filter, a store that answers gives 200 with a list of groups with
  pairwise different countries, one for exactly each country that has at least 10
  qualifying records; a group carries the number of its qualifying records, which is at
  least 10, and the mean of their ratings; an earlier group never has a lower mean than a
  later one. Ratings are exact rationals here, so the mean is the exact mean.
\<close>

theorem top_countries_no_filter:
  "failure st = None \<longrightarrow>
     (\<exists>gs. fst (getTopCountriesByRating rx st None) = Response 200 (Countries gs) \<and>
        distinct (map cg_id gs) \<and>
        (\<forall>c. (\<exists>g \<in> set gs. cg_id g = Val c) \<longleftrightarrow> 10 \<le> length (qualifying c (docs st))) \<and>
        (\<forall>g \<in> set gs. \<exists>c. cg_id g = Val c \<and> movieCount g = length (qualifying c (docs st)) \<and>
            10 \<le> movieCount g \<and> avgRating g = Val (mean_rating c (docs st))) \<and>
        (\<forall>i j. i < j \<and> j < length gs \<longrightarrow>
           (\<exists>x y. avgRating (gs ! i) = Val x \<and> avgRating (gs ! j) = Val y \<and> y \<le> x)))"
proof
  let ?gs = "sort_desc (\<lambda>g. sort_value (avgRating g)) (country_groups (docs st))"
  assume ok: "failure st = None"
  have r: "fst (getTopCountriesByRating rx st None) = Response 200 (Countries ?gs)"
    using ok by (simp add: top_countries_falsy truthy_def)
  have d: "distinct (map cg_id ?gs)"
    by (simp add: sort_desc_distinct_map country_groups_distinct)
  have mem: "g \<in> set ?gs \<longleftrightarrow> (\<exists>c. g = \<lparr>cg_id = Val c, avgRating = Val (mean_rating c (docs st)),
                movieCount = length (qualifying c (docs st))\<rparr> \<and>
          10 \<le> length (qualifying c (docs st)))" for g
    by (simp add: country_groups_set)
  have iff: "(\<exists>g \<in> set ?gs. cg_id g = Val c) \<longleftrightarrow> 10 \<le> length (qualifying c (docs st))" for c
  proof
    assume "\<exists>g \<in> set ?gs. cg_id g = Val c"
    then obtain g where "g \<in> set ?gs" "cg_id g = Val c" by blast
    then show "10 \<le> length (qualifying c (docs st))" unfolding mem by auto
  next
    assume "10 \<le> length (qualifying c (docs st))"
    then have "\<lparr>cg_id = Val c, avgRating = Val (mean_rating c (docs st)),
                movieCount = length (qualifying c (docs st))\<rparr> \<in> set ?gs"
      unfolding mem by blast
    then show "\<exists>g \<in> set ?gs. cg_id g = Val c" by (rule bexI [rotated]) simp
  qed
  have each: "\<exists>c. cg_id g = Val c \<and> movieCount g = length (qualifying c (docs st)) \<and>
            10 \<le> movieCount g \<and> avgRating g = Val (mean_rating c (docs st))" if "g \<in> set ?gs" for g
    using that unfolding mem by auto
  have srt: "sorted_wrt (\<lambda>a b. sort_value (avgRating b) \<le> sort_value (avgRating a)) ?gs"
    by (rule sort_desc_sorted)
  have ord: "\<exists>x y. avgRating (?gs ! i) = Val x \<and> avgRating (?gs ! j) = Val y \<and> y \<le> x"
    if "i < j \<and> j < length ?gs" for i j
  proof -
    from that have ij: "i < length ?gs" "j < length ?gs" by auto
    have "?gs ! i \<in> set ?gs" by (rule nth_mem) (rule ij(1))
    moreover have "?gs ! j \<in> set ?gs" by (rule nth_mem) (rule ij(2))
    ultimately have "?gs ! i \<in> set ?gs" "?gs ! j \<in> set ?gs" .
    then obtain x y where xy: "avgRating (?gs ! i) = Val x" "avgRating (?gs ! j) = Val y"
      using each by blast
    from srt that have "sort_value (avgRating (?gs ! j)) \<le> sort_value (avgRating (?gs ! i))"
      by (simp add: sorted_wrt_iff_nth_less)
    with xy show ?thesis by (simp add: sort_value_def)
  qed
  show "\<exists>gs. fst (getTopCountriesByRating rx st None) = Response 200 (Countries gs) \<and>
        distinct (map cg_id gs) \<and>
        (\<forall>c. (\<exists>g \<in> set gs. cg_id g = Val c) \<longleftrightarrow> 10 \<le> length (qualifying c (docs st))) \<and>
        (\<forall>g \<in> set gs. \<exists>c. cg_id g = Val c \<and> movieCount g = length (qualifying c (docs st)) \<and>
            10 \<le> movieCount g \<and> avgRating g = Val (mean_rating c (docs st))) \<and>
        (\<forall>i j. i < j \<and> j < length gs \<longrightarrow>
           (\<exists>x y. avgRating (gs ! i) = Val x \<and> avgRating (gs ! j) = Val y \<and> y \<le> x))"
    using r d iff each ord by (intro exI [of _ ?gs]) blast
qed

text \<open>
  The scenario of 12 records for Norway with mean 7.5 and 9 records for Sweden with mean 9:
  only Norway's summary is returned.
\<close>

theorem top_countries_no_filter_witness:
  "failure norway_sweden = None \<and>
   length (qualifying ''Norway'' (docs norway_sweden)) = 12 \<and>
   mean_rating ''Norway'' (docs norway_sweden) = 15 / 2 \<and>
   length (qualifying ''Sweden'' (docs norway_sweden)) = 9 \<and>
   mean_rating ''Sweden'' (docs norway_sweden) = 9 \<and>
   fst (getTopCountriesByRating dot_engine norway_sweden None) =
     Response 200
       (Countries [\<lparr>cg_id = Val ''Norway'', avgRating = Val (15 / 2), movieCount = 12\<rparr>]) \<and>
   (\<exists>gs. fst (getTopCountriesByRating dot_engine norway_sweden None) =
           Response 200 (Countries gs) \<and>
      distinct (map cg_id gs) \<and>
      (\<forall>c. (\<exists>g \<in> set gs. cg_id g = Val c) \<longleftrightarrow>
           10 \<le> length (qualifying c (docs norway_sweden))))"
proof -
  have a: "failure norway_sweden = None"
    by (simp add: norway_sweden_def serving_def)
  have b: "length (qualifying ''Norway'' (docs norway_sweden)) = 12"
    by code_simp
  have c: "mean_rating ''Norway'' (docs norway_sweden) = 15 / 2"
    by code_simp
  have d: "length (qualifying ''Sweden'' (docs norway_sweden)) = 9"
    by code_simp
  have e: "mean_rating ''Sweden'' (docs norway_sweden) = 9"
    by code_simp
  have f: "fst (getTopCountriesByRating dot_engine norway_sweden None) =
     Response 200
       (Countries [\<lparr>cg_id = Val ''Norway'', avgRating = Val (15 / 2), movieCount = 12\<rparr>])"
    by code_simp
  from top_countries_no_filter [of norway_sweden dot_engine] a
  have "\<exists>gs. fst (getTopCountriesByRating dot_engine norway_sweden None) =
           Response 200 (Countries gs) \<and>
      distinct (map cg_id gs) \<and>
      (\<forall>c. (\<exists>g \<in> set gs. cg_id g = Val c) \<longleftrightarrow>
           10 \<le> length (qualifying c (docs norway_sweden)))"
    by blast
  with a b c d e f show ?thesis by blast
qed

section \<open>Movies per year\<close>

lemma date_tail_iff:
  "date_tail s \<longleftrightarrow>
     (\<exists>a b c y1 y2 e. s = [CHR ''-'', a, b, c, CHR ''-'', y1, y2] @ e \<and>
        is_alpha a \<and> is_alpha b \<and> is_alpha c \<and> is_digit y1 \<and> is_digit y2 \<and> dollar e)"
  by (auto simp: date_tail_def split: list.splits)

lemma date_regex_iff:
  "date_regex s \<longleftrightarrow>
     (\<exists>d1 t. is_digit d1 \<and> date_tail t \<and>
        (s = d1 # t \<or> (\<exists>d2. is_digit d2 \<and> s = d1 # d2 # t)))"
  by (auto simp: date_regex_def split: list.splits)

lemma length1: "length xs = Suc 0 \<longleftrightarrow> (\<exists>a. xs = [a])"
  by (cases xs) auto
lemma length2': "length xs = Suc (Suc 0) \<longleftrightarrow> (\<exists>a b. xs = [a, b])"
  by (cases xs) (auto simp: length1)
lemma length2: "length xs = 2 \<longleftrightarrow> (\<exists>a b. xs = [a, b])"
  by (simp add: numeral_2_eq_2 length2')
lemma length3: "length xs = 3 \<longleftrightarrow> (\<exists>a b c. xs = [a, b, c])"
  by (cases xs) (auto simp: length2' numeral_3_eq_3)

text \<open>The conforming dates, letter by letter.\<close>

lemma conforming_iff:
  "conforming s \<longleftrightarrow>
     (\<exists>d1 a b c y1 y2. is_digit d1 \<and> is_alpha a \<and> is_alpha b \<and> is_alpha c \<and>
        is_digit y1 \<and> is_digit y2 \<and>
        (s = [d1, CHR ''-'', a, b, c, CHR ''-'', y1, y2] \<or>
         (\<exists>d2. is_digit d2 \<and> s = [d1, d2, CHR ''-'', a, b, c, CHR ''-'', y1, y2])))"
proof
  assume "conforming s"
  then obtain d m y where s: "s = d @ ''-'' @ m @ ''-'' @ y"
    and d: "length d = 1 \<or> length d = 2" "list_all is_digit d"
    and m: "length m = 3" "list_all is_alpha m"
    and y: "length y = 2" "list_all is_digit y"
    unfolding conforming_def by blast
  from m obtain a b c where m': "m = [a, b, c]" "is_alpha a" "is_alpha b" "is_alpha c"
    by (auto simp: length3)
  from y obtain y1 y2 where y': "y = [y1, y2]" "is_digit y1" "is_digit y2"
    by (auto simp: length2)
  from d(1) show "\<exists>d1 a b c y1 y2. is_digit d1 \<and> is_alpha a \<and> is_alpha b \<and> is_alpha c \<and>
        is_digit y1 \<and> is_digit y2 \<and>
        (s = [d1, CHR ''-'', a, b, c, CHR ''-'', y1, y2] \<or>
         (\<exists>d2. is_digit d2 \<and> s = [d1, d2, CHR ''-'', a, b, c, CHR ''-'', y1, y2]))"
  proof
    assume "length d = 1"
    with d(2) obtain d1 where "d = [d1]" "is_digit d1" by (auto simp: length1)
    with s m' y' show ?thesis by auto
  next
    assume "length d = 2"
    with d(2) obtain d1 d2 where "d = [d1, d2]" "is_digit d1" "is_digit d2"
      by (auto simp: length2)
    with s m' y' show ?thesis by auto
  qed
next
  assume "\<exists>d1 a b c y1 y2. is_digit d1 \<and> is_alpha a \<and> is_alpha b \<and> is_alpha c \<and>
        is_digit y1 \<and> is_digit y2 \<and>
        (s = [d1, CHR ''-'', a, b, c, CHR ''-'', y1, y2] \<or>
         (\<exists>d2. is_digit d2 \<and> s = [d1, d2, CHR ''-'', a, b, c, CHR ''-'', y1, y2]))"
  then obtain d1 a b c y1 y2 where d1: "is_digit d1"
    and ok: "list_all is_alpha [a, b, c]" "list_all is_digit [y1, y2]"
    and s: "s = [d1, CHR ''-'', a, b, c, CHR ''-'', y1, y2] \<or>
         (\<exists>d2. is_digit d2 \<and> s = [d1, d2, CHR ''-'', a, b, c, CHR ''-'', y1, y2])"
    by auto
  from s show "conforming s"
  proof
    assume "s = [d1, CHR ''-'', a, b, c, CHR ''-'', y1, y2]"
    then have "s = [d1] @ ''-'' @ [a, b, c] @ ''-'' @ [y1, y2]" by simp
    moreover have "length [d1] = 1 \<or> length [d1] = 2" "list_all is_digit [d1]"
      "length [a, b, c] = 3" "length [y1, y2] = 2" using d1 by simp_all
    ultimately show ?thesis unfolding conforming_def using ok by blast
  next
    assume "\<exists>d2. is_digit d2 \<and> s = [d1, d2, CHR ''-'', a, b, c, CHR ''-'', y1, y2]"
    then obtain d2 where d2: "is_digit d2" "s = [d1, d2, CHR ''-'', a, b, c, CHR ''-'', y1, y2]"
      by blast
    then have "s = [d1, d2] @ ''-'' @ [a, b, c] @ ''-'' @ [y1, y2]" by simp
    moreover have "length [d1, d2] = 1 \<or> length [d1, d2] = 2" "list_all is_digit [d1, d2]"
      "length [a, b, c] = 3" "length [y1, y2] = 2" using d1 d2 by simp_all
    ultimately show ?thesis unfolding conforming_def using ok by blast
  qed
qed

text \<open>
  What the pattern of the code accepts: the conforming dates, and the conforming dates
  followed by one line feed.
\<close>

lemma date_regex_conforming:
  "date_regex s \<longleftrightarrow> conforming s \<or> (\<exists>t. conforming t \<and> s = t @ [CHR 0x0A])"
proof
  assume "date_regex s"
  then obtain d1 t where d1: "is_digit d1" and t: "date_tail t"
    and s: "s = d1 # t \<or> (\<exists>d2. is_digit d2 \<and> s = d1 # d2 # t)"
    unfolding date_regex_iff by blast
  from t obtain a b c y1 y2 e where t': "t = [CHR ''-'', a, b, c, CHR ''-'', y1, y2] @ e"
    and ok: "is_alpha a" "is_alpha b" "is_alpha c" "is_digit y1" "is_digit y2"
    and e: "e = [] \<or> e = [CHR 0x0A]"
    unfolding date_tail_iff dollar_def by blast
  from s show "conforming s \<or> (\<exists>t. conforming t \<and> s = t @ [CHR 0x0A])"
  proof
    assume s1: "s = d1 # t"
    have c: "conforming [d1, CHR ''-'', a, b, c, CHR ''-'', y1, y2]"
      unfolding conforming_iff using d1 ok by blast
    from e show ?thesis
    proof
      assume "e = []"
      with s1 t' c show ?thesis by simp
    next
      assume "e = [CHR 0x0A]"
      with s1 t' have "s = [d1, CHR ''-'', a, b, c, CHR ''-'', y1, y2] @ [CHR 0x0A]" by simp
      with c show ?thesis by blast
    qed
  next
    assume "\<exists>d2. is_digit d2 \<and> s = d1 # d2 # t"
    then obtain d2 where d2: "is_digit d2" and s2: "s = d1 # d2 # t" by blast
    have c: "conforming [d1, d2, CHR ''-'', a, b, c, CHR ''-'', y1, y2]"
      unfolding conforming_iff using d1 d2 ok by blast
    from e show ?thesis
    proof
      assume "e = []"
      with s2 t' c show ?thesis by simp
    next
      assume "e = [CHR 0x0A]"
      with s2 t' have "s = [d1, d2, CHR ''-'', a, b, c, CHR ''-'', y1, y2] @ [CHR 0x0A]"
        by simp
      with c show ?thesis by blast
    qed
  qed
next
  have core: "date_regex (t @ e)" if "conforming t" "dollar e" for t e
  proof -
    from that(1) obtain d1 a b c y1 y2 where d1: "is_digit d1"
      and ok: "is_alpha a" "is_alpha b" "is_alpha c" "is_digit y1" "is_digit y2"
      and t: "t = [d1, CHR ''-'', a, b, c, CHR ''-'', y1, y2] \<or>
         (\<exists>d2. is_digit d2 \<and> t = [d1, d2, CHR ''-'', a, b, c, CHR ''-'', y1, y2])"
      unfolding conforming_iff by blast
    have tl: "date_tail ([CHR ''-'', a, b, c, CHR ''-'', y1, y2] @ e)"
      unfolding date_tail_iff using ok that(2) by blast
    from t show ?thesis
    proof
      assume "t = [d1, CHR ''-'', a, b, c, CHR ''-'', y1, y2]"
      then have "t @ e = d1 # ([CHR ''-'', a, b, c, CHR ''-'', y1, y2] @ e)" by simp
      with d1 tl show ?thesis unfolding date_regex_iff by blast
    next
      assume "\<exists>d2. is_digit d2 \<and> t = [d1, d2, CHR ''-'', a, b, c, CHR ''-'', y1, y2]"
      then obtain d2 where d2: "is_digit d2"
        and "t = [d1, d2, CHR ''-'', a, b, c, CHR ''-'', y1, y2]" by blast
      then have "t @ e = d1 # d2 # ([CHR ''-'', a, b, c, CHR ''-'', y1, y2] @ e)" by simp
      with d1 d2 tl show ?thesis unfolding date_regex_iff by blast
    qed
  qed
  assume "conforming s \<or> (\<exists>t. conforming t \<and> s = t @ [CHR 0x0A])"
  then show "date_regex s"
  proof
    assume "conforming s"
    then have "date_regex (s @ [])" by (rule core) (simp add: dollar_def)
    then show ?thesis by simp
  next
    assume "\<exists>t. conforming t \<and> s = t @ [CHR 0x0A]"
    then obtain t where "conforming t" "s = t @ [CHR 0x0A]" by blast
    then show ?thesis using core [of t "[CHR 0x0A]"] by (simp add: dollar_def)
  qed
qed

lemma digit_not_hyphen: "is_digit c \<Longrightarrow> c \<noteq> CHR ''-''"
  by (auto simp: is_digit_def)

lemma alpha_not_hyphen: "is_alpha c \<Longrightarrow> c \<noteq> CHR ''-''"
  by (auto simp: is_alpha_def)

lemma conforming_last_digit: "conforming s \<Longrightarrow> s \<noteq> [] \<and> is_digit (last s)"
  unfolding conforming_iff by auto

lemma release_year_conforming:
  assumes "ReleaseDate m = Val s" "conforming s"
  shows "release_year m = Inr (Val (trailing_year s))"
proof -
  from assms(2) obtain d1 a b c y1 y2 where d1: "is_digit d1"
    and al: "is_alpha a" "is_alpha b" "is_alpha c" and dg: "is_digit y1" "is_digit y2"
    and s: "s = [d1, CHR ''-'', a, b, c, CHR ''-'', y1, y2] \<or>
         (\<exists>d2. is_digit d2 \<and> s = [d1, d2, CHR ''-'', a, b, c, CHR ''-'', y1, y2])"
    unfolding conforming_iff by blast
  have ne: "a \<noteq> CHR ''-''" "b \<noteq> CHR ''-''" "c \<noteq> CHR ''-''" "y1 \<noteq> CHR ''-''" "y2 \<noteq> CHR ''-''"
    "d1 \<noteq> CHR ''-''"
    using al dg d1 by (simp_all add: digit_not_hyphen alpha_not_hyphen)
  from s show ?thesis
  proof
    assume s1: "s = [d1, CHR ''-'', a, b, c, CHR ''-'', y1, y2]"
    then have "split_on CHR ''-'' s = [[d1], [a, b, c], [y1, y2]]"
      using ne by simp
    moreover have "drop (length s - 2) s = [y1, y2]" by (simp add: s1)
    ultimately show ?thesis
      using assms(1) dg
      by (simp add: release_year_def split_op_def arrayElemAt_def toInt_def add_op_def
          trailing_year_def)
  next
    assume "\<exists>d2. is_digit d2 \<and> s = [d1, d2, CHR ''-'', a, b, c, CHR ''-'', y1, y2]"
    then obtain d2 where d2: "is_digit d2"
      and s2: "s = [d1, d2, CHR ''-'', a, b, c, CHR ''-'', y1, y2]" by blast
    then have "d2 \<noteq> CHR ''-''" by (simp add: digit_not_hyphen)
    then have "split_on CHR ''-'' s = [[d1, d2], [a, b, c], [y1, y2]]"
      using ne s2 by simp
    moreover have "drop (length s - 2) s = [y1, y2]" by (simp add: s2)
    ultimately show ?thesis
      using assms(1) dg
      by (simp add: release_year_def split_op_def arrayElemAt_def toInt_def add_op_def
          trailing_year_def)
  qed
qed

lemma conforming_movie_regex: "conforming_movie m \<Longrightarrow> regex date_regex (ReleaseDate m)"
  by (cases "ReleaseDate m")
     (simp_all add: regex_def conforming_movie_def date_regex_conforming)

lemma movie_release_year:
  "conforming_movie m \<Longrightarrow> release_year m = Inr (Val (movie_year m))"
  by (cases "ReleaseDate m")
     (simp_all add: conforming_movie_def movie_year_def release_year_conforming)

lemma add_release_year_conforming:
  "\<forall>m \<in> set ms. conforming_movie m \<Longrightarrow>
   add_release_year ms = Inr (map (\<lambda>m. (m, Val (movie_year m))) ms)"
  by (induction ms) (simp_all add: movie_release_year)

text \<open>
  Claim C2. The pattern lets a conforming date followed by a line feed through the
  \<open>$match\<close> stage, although it does not conform; \<open>$toInt\<close> then fails on the two digits
  and the line feed, the aggregation fails, and the controller answers 500 for the whole
  collection, the conforming record of 2003 included. The full listing has both records.
\<close>

theorem movies_per_year_line_feed:
  "regex date_regex (ReleaseDate (released_on (''5-Jul-98'' @ [CHR 0x0A]))) \<and>
   \<not> conforming_movie (released_on (''5-Jul-98'' @ [CHR 0x0A])) \<and>
   conforming_movie (released_on ''12-Jan-03'') \<and>
   release_year (released_on (''5-Jul-98'' @ [CHR 0x0A])) =
     Inl (''Failed to parse number 98'' @ [CHR 0x0A]) \<and>
   fst (getMoviesPerYear line_feed_store) =
     Response 500 (Message (''Failed to parse number 98'' @ [CHR 0x0A])) \<and>
   fst (getAllMovies line_feed_store) =
     Response 200 (Movies [released_on ''12-Jan-03'',
                           released_on (''5-Jul-98'' @ [CHR 0x0A])])"
proof -
  have a: "regex date_regex (ReleaseDate (released_on (''5-Jul-98'' @ [CHR 0x0A])))"
    by code_simp
  have "\<not> is_digit (last (''5-Jul-98'' @ [CHR 0x0A]))"
    by (simp add: is_digit_def)
  then have "\<not> conforming (''5-Jul-98'' @ [CHR 0x0A])"
    using conforming_last_digit by blast
  then have b: "\<not> conforming_movie (released_on (''5-Jul-98'' @ [CHR 0x0A]))"
    by (simp add: conforming_movie_def released_on_def)
  have "is_digit CHR ''1'' \<and> is_digit CHR ''2'' \<and> is_alpha CHR ''J'' \<and> is_alpha CHR ''a'' \<and>
      is_alpha CHR ''n'' \<and> is_digit CHR ''0'' \<and> is_digit CHR ''3''"
    by (simp add: is_digit_def is_alpha_def)
  then have "conforming ''12-Jan-03''"
    unfolding conforming_iff by auto
  then have c: "conforming_movie (released_on ''12-Jan-03'')"
    by (simp add: conforming_movie_def released_on_def)
  have d: "release_year (released_on (''5-Jul-98'' @ [CHR 0x0A])) =
     Inl (''Failed to parse number 98'' @ [CHR 0x0A])"
    by code_simp
  have e: "fst (getMoviesPerYear line_feed_store) =
     Response 500 (Message (''Failed to parse number 98'' @ [CHR 0x0A]))"
    by code_simp
  have f: "fst (getAllMovies line_feed_store) =
     Response 200 (Movies [released_on ''12-Jan-03'',
                           released_on (''5-Jul-98'' @ [CHR 0x0A])])"
    by code_simp
  from a b c d e f show ?thesis by blast
qed

lemma sum_list_indicator:
  "distinct ks \<Longrightarrow>
   sum_list (map (\<lambda>k. if a = k then 1 else 0) ks) = (if a \<in> set ks then 1 else (0::nat))"
  by (induction ks) auto

lemma group_sizes_sum:
  "distinct ks \<Longrightarrow> set (map f xs) \<subseteq> set ks \<Longrightarrow>
   sum_list (map (\<lambda>k. length (filter (\<lambda>x. f x = k) xs)) ks) = length xs"
proof (induction xs)
  case Nil
  then show ?case by simp
next
  case (Cons x xs)
  have "sum_list (map (\<lambda>k. length (filter (\<lambda>y. f y = k) (x # xs))) ks) =
        sum_list (map (\<lambda>k. (if f x = k then 1 else 0) + length (filter (\<lambda>y. f y = k) xs)) ks)"
    by (rule arg_cong [where f = sum_list], rule map_cong) auto
  also have "\<dots> = sum_list (map (\<lambda>k. if f x = k then 1 else 0) ks) +
                   sum_list (map (\<lambda>k. length (filter (\<lambda>y. f y = k) xs)) ks)"
    by (rule sum_list_addf)
  also have "\<dots> = 1 + length xs"
    using Cons by (simp add: sum_list_indicator)
  finally show ?case by simp
qed

lemma year_pipeline_eq:
  assumes "\<forall>m \<in> set ds. regex date_regex (ReleaseDate m) \<longrightarrow> conforming_movie m"
  shows "year_pipeline ds =
     Inr (sort_asc (\<lambda>g. sort_value (yg_id g))
            (map (\<lambda>k. \<lparr>yg_id = k,
                        yg_count = length (filter (\<lambda>m. Val (movie_year m) = k)
                                             (filter conforming_movie ds))\<rparr>)
               (remdups (map (\<lambda>m. Val (movie_year m)) (filter conforming_movie ds)))))"
proof -
  have f: "filter (\<lambda>m. regex date_regex (ReleaseDate m)) ds = filter conforming_movie ds"
    by (rule filter_cong) (use assms conforming_movie_regex in blast)+
  have a: "add_release_year (filter conforming_movie ds) =
      Inr (map (\<lambda>m. (m, Val (movie_year m))) (filter conforming_movie ds))"
    by (rule add_release_year_conforming) simp
  have l: "length (filter (\<lambda>x. snd x = k) (map (\<lambda>m. (m, Val (movie_year m))) xs)) =
      length (filter (\<lambda>m. Val (movie_year m) = k) xs)" for k :: "int field" and xs
    by (induction xs) auto
  show ?thesis
    unfolding year_pipeline_def f a
    by (simp add: group_by_def comp_def l)
qed

lemma sum_list_sort_asc:
  fixes g :: "'a \<Rightarrow> nat"
  shows "sum_list (map g (sort_asc f xs)) = sum_list (map g xs)"
proof -
  have "sum_mset (mset (map g (sort_key f xs))) = sum_mset (mset (map g xs))"
    by simp
  then show ?thesis
    unfolding sort_asc_def by (simp only: sum_mset_sum_list)
qed

lemma filter_conforming_year:
  "filter (\<lambda>x. Val (movie_year x) = Val y) (filter conforming_movie ds) =
   filter (\<lambda>m. conforming_movie m \<and> movie_year m = y) ds"
  by (induction ds) auto

text \<open>
  Away from such dates the pipeline does what its comments say. On a store that answers
  and in which every date the pattern accepts conforms, the answer is 200 with the year
  counts: every group has a year, counts exactly the stored records whose release date
  conforms and whose year, 2000 plus the value of the trailing two digits, is the group's
  year, and is not empty; every conforming record has its year in the result; the counts
  add up to the number of conforming records; the years are strictly increasing.
\<close>

lemma movies_per_year_without_line_feed:
  assumes ok: "failure st = None"
    and H: "\<forall>m \<in> set (docs st). regex date_regex (ReleaseDate m) \<longrightarrow> conforming_movie m"
  shows "\<exists>ycs. fst (getMoviesPerYear st) = Response 200 (YearCounts ycs) \<and>
         (\<forall>g \<in> set ycs. \<exists>y. yg_id g = Val y \<and> 0 < yg_count g \<and>
             yg_count g =
               length (filter (\<lambda>m. conforming_movie m \<and> movie_year m = y) (docs st))) \<and>
         (\<forall>m \<in> set (docs st). conforming_movie m \<longrightarrow>
             (\<exists>g \<in> set ycs. yg_id g = Val (movie_year m))) \<and>
         sum_list (map yg_count ycs) = length (filter conforming_movie (docs st)) \<and>
         (\<forall>i j. i < j \<and> j < length ycs \<longrightarrow>
            (\<exists>y z. yg_id (ycs ! i) = Val y \<and> yg_id (ycs ! j) = Val z \<and> y < z))"
proof -
  define C where "C = filter conforming_movie (docs st)"
  define K where "K = remdups (map (\<lambda>m. Val (movie_year m)) C)"
  define mk where
    "mk = (\<lambda>k. \<lparr>yg_id = k, yg_count = length (filter (\<lambda>m. Val (movie_year m) = k) C)\<rparr>)"
  define ycs where "ycs = sort_asc (\<lambda>g. sort_value (yg_id g)) (map mk K)"
  have r: "fst (getMoviesPerYear st) = Response 200 (YearCounts ycs)"
    using ok year_pipeline_eq [OF H]
    by (simp add: getMoviesPerYear_def run_query_ok ycs_def mk_def K_def C_def)
  have set_ycs: "set ycs = mk ` set K"
    by (simp add: ycs_def sort_asc_def)
  have K: "set K = (\<lambda>m. Val (movie_year m)) ` set C"
    by (simp add: K_def)
  have cnt: "length (filter (\<lambda>m. Val (movie_year m) = Val y) C) =
      length (filter (\<lambda>m. conforming_movie m \<and> movie_year m = y) (docs st))" for y
    unfolding C_def by (simp only: filter_conforming_year)
  have each: "\<exists>y. yg_id g = Val y \<and> 0 < yg_count g \<and>
      yg_count g = length (filter (\<lambda>m. conforming_movie m \<and> movie_year m = y) (docs st))"
    if "g \<in> set ycs" for g
  proof -
    from that obtain m where m: "m \<in> set C" and g: "g = mk (Val (movie_year m))"
      unfolding set_ycs K by blast
    have "m \<in> set (filter (\<lambda>x. Val (movie_year x) = Val (movie_year m)) C)"
      using m by simp
    then have pos: "0 < length (filter (\<lambda>x. Val (movie_year x) = Val (movie_year m)) C)"
      by (rule length_pos_if_in_set)
    have a: "yg_id g = Val (movie_year m)"
      and b: "yg_count g = length (filter (\<lambda>x. Val (movie_year x) = Val (movie_year m)) C)"
      by (simp_all add: g mk_def)
    from a b pos cnt [of "movie_year m"] show ?thesis by metis
  qed
  have cover: "\<exists>g \<in> set ycs. yg_id g = Val (movie_year m)"
    if "m \<in> set (docs st)" "conforming_movie m" for m
  proof -
    from that have "m \<in> set C" by (simp add: C_def)
    then have "mk (Val (movie_year m)) \<in> set ycs" unfolding set_ycs K by blast
    then show ?thesis by (rule bexI [rotated]) (simp add: mk_def)
  qed
  have "sum_list (map yg_count ycs) = sum_list (map yg_count (map mk K))"
    unfolding ycs_def by (rule sum_list_sort_asc)
  also have "\<dots> = sum_list (map (\<lambda>k. length (filter (\<lambda>m. Val (movie_year m) = k) C)) K)"
    by (simp add: mk_def comp_def)
  also have "\<dots> = length C"
    by (rule group_sizes_sum) (simp_all add: K_def)
  finally have total: "sum_list (map yg_count ycs) = length (filter conforming_movie (docs st))"
    by (simp add: C_def)
  have ids: "map yg_id (map mk K) = K"
    by (simp add: mk_def comp_def)
  have "distinct (map yg_id (map mk K))"
    unfolding ids by (simp add: K_def)
  then have "distinct (map mk K) \<and> inj_on yg_id (set (map mk K))"
    by (simp only: distinct_map)
  then have "distinct (map yg_id ycs)"
    unfolding ycs_def sort_asc_def by (simp only: distinct_map distinct_sort set_sort)
  have vals: "\<exists>y. yg_id g = Val y" if "g \<in> set ycs" for g
    using each [OF that] by blast
  have inj: "inj_on (\<lambda>g. sort_value (yg_id g)) (set ycs)"
  proof (rule inj_onI)
    fix a b assume ab: "a \<in> set ycs" "b \<in> set ycs"
      "sort_value (yg_id a) = sort_value (yg_id b)"
    from vals ab obtain y z where "yg_id a = Val y" "yg_id b = Val z" by blast
    with ab(3) have "yg_id a = yg_id b" by (simp add: sort_value_def)
    moreover from \<open>distinct (map yg_id ycs)\<close> have "inj_on yg_id (set ycs)"
      by (simp add: distinct_map)
    ultimately show "a = b" using ab(1,2) by (simp add: inj_on_def)
  qed
  from \<open>distinct (map yg_id ycs)\<close> have "distinct ycs" by (simp add: distinct_map)
  with inj have dk: "distinct (map (\<lambda>g. sort_value (yg_id g)) ycs)"
    by (simp add: distinct_map)
  have "sorted (map (\<lambda>g. sort_value (yg_id g)) ycs)"
    unfolding ycs_def sort_asc_def by (rule sorted_sort_key)
  with dk have "sorted_wrt (<) (map (\<lambda>g. sort_value (yg_id g)) ycs)"
    by (simp add: strict_sorted_iff)
  then have strict: "sorted_wrt (\<lambda>a b. sort_value (yg_id a) < sort_value (yg_id b)) ycs"
    by (simp add: sorted_wrt_map)
  have incr: "\<exists>y z. yg_id (ycs ! i) = Val y \<and> yg_id (ycs ! j) = Val z \<and> y < z"
    if "i < j \<and> j < length ycs" for i j
  proof -
    from that have ij: "i < length ycs" "j < length ycs" by auto
    have "ycs ! i \<in> set ycs" by (rule nth_mem) (rule ij(1))
    moreover have "ycs ! j \<in> set ycs" by (rule nth_mem) (rule ij(2))
    ultimately obtain y z where yz: "yg_id (ycs ! i) = Val y" "yg_id (ycs ! j) = Val z"
      using vals by blast
    from strict that have "sort_value (yg_id (ycs ! i)) < sort_value (yg_id (ycs ! j))"
      by (simp add: sorted_wrt_iff_nth_less)
    with yz show ?thesis by (simp add: sort_value_def)
  qed
  from r each cover total incr show ?thesis
    by (intro exI [of _ ycs]) blast
qed

text \<open>The date 5-Jul-98 is counted under 2098, and records without a conforming date are left out.\<close>

lemma movies_per_year_example:
  "fst (getMoviesPerYear dated_store) =
     Response 200 (YearCounts [\<lparr>yg_id = Val 2003, yg_count = 2\<rparr>,
                               \<lparr>yg_id = Val 2098, yg_count = 1\<rparr>])"
  by code_simp

section \<open>Top countries: the country filter\<close>









end
